theory Spec2Isabelle
  imports Complex_Main
begin

section \<open>Technical-indicator engine (technical_analysis.py)\<close>

text \<open>
  The module is pure numeric Python over lists of floats. Floats are modelled as
  \<open>real\<close>: arithmetic is exact, so the theorems below are about the algorithm in
  exact arithmetic and say nothing about binary rounding error, overflow, NaN or
  infinities. Periods are Python ints and stay \<open>int\<close>, negative values included.
  Every exception the module can raise on such inputs is a value of \<open>error\<close>.
\<close>

subsection \<open>Python values and list operations\<close>

datatype error = ZeroDivisionError | IndexError | ValueError

definition and_then :: "error + 'a \<Rightarrow> ('a \<Rightarrow> error + 'b) \<Rightarrow> error + 'b" where
  "and_then m f = (case m of Inl e \<Rightarrow> Inl e | Inr v \<Rightarrow> f v)"

text \<open>\<open>a / b\<close> on numbers: raises on a zero divisor.\<close>

definition truediv :: "real \<Rightarrow> real \<Rightarrow> error + real" where
  "truediv a b = (if b = 0 then Inl ZeroDivisionError else Inr (a / b))"

text \<open>\<open>math.sqrt(x)\<close>: raises ValueError (math domain error) below zero.\<close>

definition math_sqrt :: "real \<Rightarrow> error + real" where
  "math_sqrt x = (if x < 0 then Inl ValueError else Inr (sqrt x))"

text \<open>
  \<open>round(x, nd)\<close>: to the nearest multiple of \<open>10 ** -nd\<close>, a tie going to the even
  neighbour.
\<close>

definition round_half_even :: "real \<Rightarrow> int" where
  "round_half_even x =
     (let f = \<lfloor>x\<rfloor>; d = x - of_int f
      in if d < 1 / 2 then f
         else if 1 / 2 < d then f + 1
         else if even f then f else f + 1)"

definition py_round :: "real \<Rightarrow> nat \<Rightarrow> real" where
  "py_round x nd = of_int (round_half_even (x * 10 ^ nd)) / 10 ^ nd"

text \<open>
  Slices clamp their bounds and count a negative bound from the end: \<open>xs[lo:hi]\<close>,
  \<open>xs[:hi]\<close>, \<open>xs[lo:]\<close>.
\<close>

definition slice_bound :: "nat \<Rightarrow> int \<Rightarrow> nat" where
  "slice_bound n i = (if i < 0 then nat (max (i + int n) 0) else min (nat i) n)"

definition slice :: "'a list \<Rightarrow> int \<Rightarrow> int \<Rightarrow> 'a list" where
  "slice xs lo hi =
     (let a = slice_bound (length xs) lo; b = slice_bound (length xs) hi
      in take (b - a) (drop a xs))"

definition slice_to :: "'a list \<Rightarrow> int \<Rightarrow> 'a list" where
  "slice_to xs hi = take (slice_bound (length xs) hi) xs"

definition slice_from :: "'a list \<Rightarrow> int \<Rightarrow> 'a list" where
  "slice_from xs lo = drop (slice_bound (length xs) lo) xs"

text \<open>\<open>xs[i]\<close>: a negative index counts from the end, out of range raises IndexError.\<close>

definition item :: "'a list \<Rightarrow> int \<Rightarrow> error + 'a" where
  "item xs i =
     (let n = int (length xs); j = (if i < 0 then i + n else i)
      in if 0 \<le> j \<and> j < n then Inr (xs ! nat j) else Inl IndexError)"

text \<open>\<open>range(a, b)\<close> and \<open>[x] * k\<close> (empty for \<open>k \<le> 0\<close>).\<close>

definition py_range :: "int \<Rightarrow> int \<Rightarrow> int list" where
  "py_range a b = [a..b - 1]"

definition times :: "'a \<Rightarrow> int \<Rightarrow> 'a list" where
  "times x k = replicate (nat k) x"

subsection \<open>SeriesMath: \<open>_ema\<close> and \<open>_sma\<close>\<close>

text \<open>
  The loop of \<open>_ema\<close>: \<open>ema\<close> starts as a one-element list and only grows, so
  \<open>ema[-1]\<close> is its last element.
\<close>

fun ema_loop :: "real \<Rightarrow> real list \<Rightarrow> real list \<Rightarrow> real list" where
  "ema_loop k [] ema = ema"
| "ema_loop k (p # ps) ema = ema_loop k ps (ema @ [p * k + last ema * (1 - k)])"

definition ema :: "real list \<Rightarrow> int \<Rightarrow> error + real list" where
  "ema prices period =
     (if int (length prices) < period then Inr []
      else and_then (truediv 2 (of_int (period + 1))) (\<lambda>k.
           and_then (truediv (sum_list (slice_to prices period)) (of_int period)) (\<lambda>seed.
           Inr (ema_loop k (slice_from prices period) [seed]))))"

fun sma_loop :: "real list \<Rightarrow> int \<Rightarrow> int list \<Rightarrow> real option list \<Rightarrow> error + real option list" where
  "sma_loop prices period [] result = Inr result"
| "sma_loop prices period (i # is) result =
     and_then (truediv (sum_list (slice prices (i - period + 1) (i + 1))) (of_int period)) (\<lambda>v.
     sma_loop prices period is (result @ [Some v]))"

definition sma :: "real list \<Rightarrow> int \<Rightarrow> error + real option list" where
  "sma prices period =
     sma_loop prices period (py_range (period - 1) (int (length prices))) (times None (period - 1))"

subsection \<open>MomentumOscillator: \<open>compute_rsi\<close>\<close>

text \<open>The nested function \<open>_rsi(ag, al)\<close>, its three branches in the source's order.\<close>

definition rsi :: "real \<Rightarrow> real \<Rightarrow> error + real" where
  "rsi ag al =
     (if ag = 0 \<and> al = 0 then Inr 50
      else if al = 0 then Inr 100
      else and_then (truediv ag al) (\<lambda>rs.
           and_then (truediv 100 (1 + rs)) (\<lambda>q.
           Inr (py_round (100 - q) 2))))"

text \<open>
  The first loop fills \<open>gains\<close> and \<open>losses\<close> for \<open>i\<close> in \<open>range(1, len(close))\<close>; both
  indices it reads are in range.
\<close>

definition gains_of :: "real list \<Rightarrow> real list" where
  "gains_of close = map (\<lambda>i. max (close ! i - close ! (i - 1)) 0) [1..<length close]"

definition losses_of :: "real list \<Rightarrow> real list" where
  "losses_of close = map (\<lambda>i. max (- (close ! i - close ! (i - 1))) 0) [1..<length close]"

text \<open>The smoothing loop; its state is \<open>(avg_gain, avg_loss, rsi_values)\<close>.\<close>

fun rsi_loop ::
  "real list \<Rightarrow> real list \<Rightarrow> int \<Rightarrow> int list \<Rightarrow> real \<times> real \<times> real option list
     \<Rightarrow> error + real option list" where
  "rsi_loop gains losses period [] (avg_gain, avg_loss, rsi_values) = Inr rsi_values"
| "rsi_loop gains losses period (i # is) (avg_gain, avg_loss, rsi_values) =
     and_then (item gains i) (\<lambda>g.
     and_then (truediv (avg_gain * of_int (period - 1) + g) (of_int period)) (\<lambda>avg_gain'.
     and_then (item losses i) (\<lambda>l.
     and_then (truediv (avg_loss * of_int (period - 1) + l) (of_int period)) (\<lambda>avg_loss'.
     and_then (rsi avg_gain' avg_loss') (\<lambda>v.
     rsi_loop gains losses period is (avg_gain', avg_loss', rsi_values @ [Some v]))))))"

definition compute_rsi :: "real list \<Rightarrow> int \<Rightarrow> error + real option list" where
  "compute_rsi close period =
     (if int (length close) < period + 1 then Inr (times None (int (length close)))
      else
        let gains = gains_of close; losses = losses_of close
        in and_then (truediv (sum_list (slice_to gains period)) (of_int period)) (\<lambda>avg_gain.
           and_then (truediv (sum_list (slice_to losses period)) (of_int period)) (\<lambda>avg_loss.
           and_then (rsi avg_gain avg_loss) (\<lambda>v.
           rsi_loop gains losses period (py_range period (int (length gains)))
             (avg_gain, avg_loss, times None period @ [Some v])))))"

subsection \<open>ConvergenceOscillator: \<open>compute_macd\<close>\<close>

record macd_result =
  macd :: "real list"
  signal :: "real list"
  histogram :: "real list"

text \<open>
  The histogram rounds \<open>m - s\<close> with the unrounded signal value \<open>s\<close>, and the signal
  series rounds \<open>s\<close> on its own. In doubles \<open>m - s\<close> and \<open>s\<close> carry an error of about
  \<open>1e-17\<close>, so next to a rounding tie the two can be rounded to different sides where
  exact arithmetic rounds them to the same side; what is proved of the histogram below is
  a bound of one unit of the fourth decimal, which both behaviours meet.
\<close>

definition compute_macd :: "real list \<Rightarrow> int \<Rightarrow> int \<Rightarrow> int \<Rightarrow> error + macd_result" where
  "compute_macd close fast slow sig =
     (if int (length close) < slow + sig
      then Inr \<lparr>macd = [], signal = [], histogram = []\<rparr>
      else
        and_then (ema close fast) (\<lambda>ema_fast.
        and_then (ema close slow) (\<lambda>ema_slow.
          let offset = slow - fast;
              macd_line = map2 (\<lambda>f s. py_round (f - s) 4) (slice_from ema_fast offset) ema_slow
          in and_then (ema macd_line sig) (\<lambda>signal_line.
               let offset_sig = sig - 1;
                   aligned_macd = slice_from macd_line offset_sig;
                   hist = map2 (\<lambda>m s. py_round (m - s) 4) aligned_macd signal_line
               in Inr \<lparr>macd = map (\<lambda>v. py_round v 4) aligned_macd,
                       signal = map (\<lambda>v. py_round v 4) signal_line,
                       histogram = hist\<rparr>))))"

subsection \<open>VolatilityBands: \<open>compute_bollinger_bands\<close>\<close>

record bollinger_result =
  upper :: "real list"
  middle :: "real list"
  lower :: "real list"

text \<open>The loop over \<open>range(period - 1, len(close))\<close>; its state is \<open>(middle, upper, lower)\<close>.\<close>

fun bollinger_loop ::
  "real list \<Rightarrow> int \<Rightarrow> real \<Rightarrow> int list \<Rightarrow> real list \<times> real list \<times> real list
     \<Rightarrow> error + real list \<times> real list \<times> real list" where
  "bollinger_loop close period std_dev [] (mid, up, low) = Inr (mid, up, low)"
| "bollinger_loop close period std_dev (i # is) (mid, up, low) =
     (let window = slice close (i - period + 1) (i + 1)
      in and_then (truediv (sum_list window) (of_int period)) (\<lambda>sma.
         and_then (truediv (sum_list (map (\<lambda>p. (p - sma) ^ 2) window)) (of_int period)) (\<lambda>variance.
         and_then (math_sqrt variance) (\<lambda>std.
         bollinger_loop close period std_dev is
           (mid @ [py_round sma 2],
            up @ [py_round (sma + std_dev * std) 2],
            low @ [py_round (sma - std_dev * std) 2])))))"

definition compute_bollinger_bands :: "real list \<Rightarrow> int \<Rightarrow> real \<Rightarrow> error + bollinger_result" where
  "compute_bollinger_bands close period std_dev =
     (if int (length close) < period then Inr \<lparr>upper = [], middle = [], lower = []\<rparr>
      else and_then
             (bollinger_loop close period std_dev (py_range (period - 1) (int (length close)))
                ([], [], []))
             (\<lambda>(mid, up, low). Inr \<lparr>upper = up, middle = mid, lower = low\<rparr>))"

subsection \<open>IndicatorAggregator: \<open>compute_indicators\<close>\<close>

text \<open>
  The signal sentences are fixed templates; each constructor stands for one of them, in
  the order the source lists them. The three RSI sentences carry the number the source
  prints into them with \<open>:.1f\<close>.
\<close>

datatype signal_text =
    Rsi_Overbought real
  | Rsi_Oversold real
  | Rsi_Neutral real
  | Macd_Bullish
  | Macd_Bearish
  | Golden_Cross
  | Death_Cross
  | Above_Upper_Band
  | Below_Lower_Band

record latest_values =
  latest_close :: real
  latest_rsi :: "real option"
  latest_macd :: "real option"
  latest_macd_signal :: "real option"
  latest_macd_histogram :: "real option"
  latest_sma_20 :: "real option"
  latest_sma_50 :: "real option"
  latest_sma_200 :: "real option"
  latest_bb_upper :: "real option"
  latest_bb_lower :: "real option"
  latest_trend :: string
  latest_trend_30d_pct :: real

record indicators =
  ind_rsi :: "real option list"
  ind_macd :: macd_result
  ind_bollinger_bands :: bollinger_result
  ind_sma_20 :: "real option list"
  ind_sma_50 :: "real option list"
  ind_sma_200 :: "real option list"
  ind_latest :: latest_values
  ind_signals :: "signal_text list"
  ind_data_points :: nat

text \<open>\<open>next((v for v in reversed(xs) if v is not None), None)\<close>\<close>

definition last_valid :: "real option list \<Rightarrow> real option" where
  "last_valid xs = (case find (\<lambda>v. v \<noteq> None) (rev xs) of Some v \<Rightarrow> v | None \<Rightarrow> None)"

text \<open>\<open>xs[-1] if xs else None\<close>\<close>

definition last_or_none :: "real list \<Rightarrow> real option" where
  "last_or_none xs = (if xs \<noteq> [] then Some (last xs) else None)"

text \<open>Truth value of an optional number: \<open>None\<close> and zero are false.\<close>

definition truthy :: "real option \<Rightarrow> bool" where
  "truthy v = (case v of None \<Rightarrow> False | Some x \<Rightarrow> x \<noteq> 0)"

text \<open>\<open>round(v, 2) if v else None\<close>\<close>

definition round_if_truthy :: "real option \<Rightarrow> real option" where
  "round_if_truthy v = (if truthy v then map_option (\<lambda>x. py_round x 2) v else None)"

definition rsi_signals :: "real option \<Rightarrow> signal_text list" where
  "rsi_signals last_rsi =
     (case last_rsi of
        None \<Rightarrow> []
      | Some r \<Rightarrow>
          [if r > 70 then Rsi_Overbought r
           else if r < 30 then Rsi_Oversold r
           else Rsi_Neutral r])"

definition macd_signals :: "real option \<Rightarrow> real option \<Rightarrow> signal_text list" where
  "macd_signals last_macd last_signal =
     (case (last_macd, last_signal) of
        (Some m, Some s) \<Rightarrow> [if m > s then Macd_Bullish else Macd_Bearish]
      | _ \<Rightarrow> [])"

definition cross_signals :: "real option \<Rightarrow> real option \<Rightarrow> signal_text list" where
  "cross_signals last_sma50 last_sma200 =
     (case (last_sma50, last_sma200) of
        (Some a, Some b) \<Rightarrow>
          if a \<noteq> 0 \<and> b \<noteq> 0 then [if a > b then Golden_Cross else Death_Cross] else []
      | _ \<Rightarrow> [])"

definition band_signals :: "real \<Rightarrow> real option \<Rightarrow> real option \<Rightarrow> signal_text list" where
  "band_signals last_close last_bb_upper last_bb_lower =
     (case (last_bb_upper, last_bb_lower) of
        (Some u, Some l) \<Rightarrow>
          if last_close \<noteq> 0 \<and> u \<noteq> 0 \<and> l \<noteq> 0
          then (if last_close > u then [Above_Upper_Band]
                else if last_close < l then [Below_Lower_Band]
                else [])
          else []
      | _ \<Rightarrow> [])"

definition compute_indicators ::
  "string list \<Rightarrow> real list \<Rightarrow> real list \<Rightarrow> real list \<Rightarrow> int list \<Rightarrow> error + indicators" where
  "compute_indicators dates close high low volume =
     and_then (sma close 20) (\<lambda>sma_20.
     and_then (sma close 50) (\<lambda>sma_50.
     and_then (sma close 200) (\<lambda>sma_200.
     and_then (compute_rsi close 14) (\<lambda>rsi_14.
     and_then (compute_macd close 12 26 9) (\<lambda>macd_data.
     and_then (compute_bollinger_bands close 20 2) (\<lambda>bb_data.
       let last_close = (if close \<noteq> [] then last close else 0);
           last_rsi = last_valid rsi_14;
           last_sma20 = last_valid sma_20;
           last_sma50 = last_valid sma_50;
           last_sma200 = last_valid sma_200;
           last_macd = last_or_none (macd macd_data);
           last_signal = last_or_none (signal macd_data);
           last_hist = last_or_none (histogram macd_data);
           last_bb_upper = last_or_none (upper bb_data);
           last_bb_lower = last_or_none (lower bb_data);
           signals = rsi_signals last_rsi @ macd_signals last_macd last_signal
                     @ cross_signals last_sma50 last_sma200
                     @ band_signals last_close last_bb_upper last_bb_lower
       in and_then (if 30 \<le> length close then item close (- 30) else item close 0)
            (\<lambda>price_30d_ago.
               let trend_pct = (if price_30d_ago \<noteq> 0
                                then (last_close - price_30d_ago) / price_30d_ago * 100
                                else 0);
                   trend = (if trend_pct > 2 then ''Uptrend''
                            else if trend_pct < - 2 then ''Downtrend''
                            else ''Sideways'')
               in Inr \<lparr>ind_rsi = rsi_14,
                       ind_macd = macd_data,
                       ind_bollinger_bands = bb_data,
                       ind_sma_20 = sma_20,
                       ind_sma_50 = sma_50,
                       ind_sma_200 = sma_200,
                       ind_latest =
                         \<lparr>latest_close = last_close,
                          latest_rsi = round_if_truthy last_rsi,
                          latest_macd = last_macd,
                          latest_macd_signal = last_signal,
                          latest_macd_histogram = last_hist,
                          latest_sma_20 = round_if_truthy last_sma20,
                          latest_sma_50 = round_if_truthy last_sma50,
                          latest_sma_200 = round_if_truthy last_sma200,
                          latest_bb_upper = last_bb_upper,
                          latest_bb_lower = last_bb_lower,
                          latest_trend = trend,
                          latest_trend_30d_pct = py_round trend_pct 2\<rparr>,
                       ind_signals = signals,
                       ind_data_points = length close\<rparr>)))))))"

subsection \<open>Names for the quantities of one window\<close>

text \<open>
  The mean and the population standard deviation that the loops of \<open>_sma\<close> and
  \<open>compute_bollinger_bands\<close> compute for the window ending at index \<open>i\<close>
  (\<open>sum(window) / period\<close> and \<open>math.sqrt(variance)\<close>), named so that the theorems can
  refer to them.
\<close>

definition window_mean :: "real list \<Rightarrow> int \<Rightarrow> int \<Rightarrow> real" where
  "window_mean close period i = sum_list (slice close (i - period + 1) (i + 1)) / of_int period"

definition window_std :: "real list \<Rightarrow> int \<Rightarrow> int \<Rightarrow> real" where
  "window_std close period i =
     sqrt (sum_list (map (\<lambda>p. (p - window_mean close period i) ^ 2)
                      (slice close (i - period + 1) (i + 1))) / of_int period)"

subsection \<open>The RSI algorithm in the words of the specification\<close>

text \<open>
  These two definitions follow section 4.2 of the specification, not the source; the
  theorems compare \<open>compute_rsi\<close> with them. \<open>spec_wilder_avg xs p k\<close> is the Wilder
  average after \<open>k\<close> smoothing steps: the seed is the mean of the first \<open>p\<close> entries,
  and each step is \<open>avg = (avg * (p - 1) + x) / p\<close> with the next entry \<open>x\<close>.
\<close>

fun spec_wilder_avg :: "real list \<Rightarrow> nat \<Rightarrow> nat \<Rightarrow> real" where
  "spec_wilder_avg xs p 0 = sum_list (take p xs) / real p"
| "spec_wilder_avg xs p (Suc k) =
     (spec_wilder_avg xs p k * (real p - 1) + xs ! (p + k)) / real p"

text \<open>The edge-case policy of the specification, in its stated order.\<close>

definition spec_rsi_policy :: "real \<Rightarrow> real \<Rightarrow> real" where
  "spec_rsi_policy avg_gain avg_loss =
     (if avg_gain = 0 \<and> avg_loss = 0 then 50
      else if avg_loss = 0 then 100
      else py_round (100 - 100 / (1 + avg_gain / avg_loss)) 2)"

text \<open>
  The invariant of the smoothing loop: both averages lie on the same side of zero, the
  side given by the sign of the period.
\<close>

definition same_side :: "int \<Rightarrow> real \<Rightarrow> real \<Rightarrow> bool" where
  "same_side period ag al = (if 0 < period then 0 \<le> ag \<and> 0 \<le> al else ag \<le> 0 \<and> al \<le> 0)"

subsection \<open>Values on the rounding grid and the histogram gap\<close>

text \<open>
  \<open>on_grid nd v\<close> says that \<open>v\<close> is a whole multiple of \<open>10 ** -nd\<close>.
  \<open>histogram_gaps r\<close> lists \<open>abs(h - (m - s))\<close> over
  \<open>zip(macd, signal, histogram)\<close>, the quantity the repository's test
  \<open>test_histogram_equals_macd_minus_signal\<close> compares with \<open>1e-6\<close>.
\<close>

definition on_grid :: "nat \<Rightarrow> real \<Rightarrow> bool" where
  "on_grid nd v = (\<exists>k::int. v = of_int k / 10 ^ nd)"

definition histogram_gaps :: "macd_result \<Rightarrow> real list" where
  "histogram_gaps r = map2 (\<lambda>h d. \<bar>h - d\<bar>) (histogram r) (map2 (-) (macd r) (signal r))"

subsection \<open>The last value of a series in the words of the specification\<close>

text \<open>
  "The last non-marker value" of a marker-padded series, following section 4.5 of the
  specification: \<open>None\<close> if the series holds no value, otherwise the last entry that is
  not \<open>None\<close>. \<open>last_valid\<close>, the source's search from the end, is proved equal to
  it below.
\<close>

definition last_non_marker :: "real option list \<Rightarrow> real option" where
  "last_non_marker xs =
     (if filter (\<lambda>v. v \<noteq> None) xs = [] then None else last (filter (\<lambda>v. v \<noteq> None) xs))"

section \<open>Helper lemmas\<close>

subsection \<open>Errors, ranges and slices\<close>

lemma py_range_conv: "py_range a b = map (\<lambda>k. a + int k) [0..<nat (b - a)]"
  by (rule nth_equalityI) (auto simp: py_range_def)

lemma length_py_range: "length (py_range a b) = nat (b - a)"
  by (simp add: py_range_def)

lemma and_then_Inr [simp]: "and_then (Inr v) f = f v"
  by (simp add: and_then_def)

lemma and_then_Inl [simp]: "and_then (Inl e) f = Inl e"
  by (simp add: and_then_def)

lemma truediv_nonzero: "b \<noteq> 0 \<Longrightarrow> truediv a b = Inr (a / b)"
  by (simp add: truediv_def)

lemma slice_window:
  assumes "p \<le> Suc j" and "j < length xs"
  shows "slice xs (int j - int p + 1) (int j + 1) = take p (drop (Suc j - p) xs)"
proof -
  have lo: "slice_bound (length xs) (int j - int p + 1) = Suc j - p"
    using assms by (auto simp: slice_bound_def)
  have hi: "slice_bound (length xs) (int j + 1) = Suc j"
    using assms by (auto simp: slice_bound_def)
  show ?thesis
    using assms by (simp add: slice_def lo hi Let_def)
qed

subsection \<open>Rounding\<close>

lemma round_half_even_of_int [simp]: "round_half_even (of_int k) = k"
  by (simp add: round_half_even_def)

lemma round_half_even_lower: "\<lfloor>x\<rfloor> \<le> round_half_even x"
  by (simp add: round_half_even_def Let_def)

lemma round_half_even_upper: "round_half_even x \<le> \<lfloor>x\<rfloor> + 1"
  by (simp add: round_half_even_def Let_def)

lemma round_half_even_mono:
  assumes "x \<le> y"
  shows "round_half_even x \<le> round_half_even y"
proof (cases "\<lfloor>x\<rfloor> = \<lfloor>y\<rfloor>")
  case True
  then show ?thesis
    using assms by (auto simp: round_half_even_def Let_def)
next
  case False
  then have "\<lfloor>x\<rfloor> + 1 \<le> \<lfloor>y\<rfloor>"
    using floor_mono[OF assms] by linarith
  then show ?thesis
    using round_half_even_upper[of x] round_half_even_lower[of y] by linarith
qed

lemma py_round_mono: "x \<le> y \<Longrightarrow> py_round x nd \<le> py_round y nd"
  by (simp add: py_round_def divide_right_mono round_half_even_mono)

lemma py_round_of_int [simp]: "py_round (of_int k) nd = of_int k"
proof -
  have "of_int k * (10::real) ^ nd = of_int (k * 10 ^ nd)" by simp
  then show ?thesis
    unfolding py_round_def by (simp only: round_half_even_of_int) simp
qed

lemma py_round_0 [simp]: "py_round 0 nd = 0"
  using py_round_of_int[of 0 nd] by simp

lemma py_round_100 [simp]: "py_round 100 nd = 100"
  using py_round_of_int[of 100 nd] by simp

lemma py_round_idem: "py_round (py_round x nd) nd = py_round x nd"
  by (simp add: py_round_def)

subsection \<open>The loop of \<open>_sma\<close>\<close>

lemma sma_loop_total:
  "period \<noteq> 0 \<Longrightarrow>
   sma_loop prices period is result =
     Inr (result @ map (\<lambda>i. Some (sum_list (slice prices (i - period + 1) (i + 1)) / of_int period)) is)"
  by (induction "is" arbitrary: result) (simp_all add: truediv_nonzero)

lemma sma_positive_period:
  assumes "1 \<le> period"
  shows "sma prices period =
     Inr (replicate (nat (period - 1)) None @
          map (\<lambda>i. Some (sum_list (slice prices (i - period + 1) (i + 1)) / of_int period))
            (py_range (period - 1) (int (length prices))))"
  using assms by (simp add: sma_def sma_loop_total times_def)

subsection \<open>The loop of \<open>compute_bollinger_bands\<close>\<close>

lemma sum_list_squares_nonneg: "0 \<le> sum_list (map (\<lambda>p. (p - c) ^ 2) (xs::real list))"
  by (rule sum_list_nonneg) auto

lemma window_std_nonneg: "1 \<le> period \<Longrightarrow> 0 \<le> window_std close period i"
  by (simp add: window_std_def sum_list_squares_nonneg)

lemma bollinger_loop_total:
  assumes "1 \<le> period"
  shows "bollinger_loop close period std_dev is (mid, up, low) =
     Inr (mid @ map (\<lambda>i. py_round (window_mean close period i) 2) is,
          up @ map (\<lambda>i. py_round (window_mean close period i
                                    + std_dev * window_std close period i) 2) is,
          low @ map (\<lambda>i. py_round (window_mean close period i
                                     - std_dev * window_std close period i) 2) is)"
proof (induction "is" arbitrary: mid up low)
  case Nil
  show ?case by simp
next
  case (Cons i "is")
  have nz: "real_of_int period \<noteq> 0"
    using assms by simp
  have var: "\<not> sum_list (map (\<lambda>p. (p - c) ^ 2) xs) / real_of_int period < 0" for c xs
    using assms sum_list_squares_nonneg[of c xs] by (simp add: divide_less_0_iff not_less)
  show ?case
    by (simp add: Let_def truediv_nonzero[OF nz] math_sqrt_def var Cons.IH
        window_mean_def window_std_def)
qed

lemma compute_bollinger_bands_total:
  assumes "1 \<le> period" and "period \<le> int (length close)"
  shows "compute_bollinger_bands close period std_dev =
     Inr \<lparr>upper = map (\<lambda>i. py_round (window_mean close period i
                                      + std_dev * window_std close period i) 2)
                    (py_range (period - 1) (int (length close))),
          middle = map (\<lambda>i. py_round (window_mean close period i) 2)
                    (py_range (period - 1) (int (length close))),
          lower = map (\<lambda>i. py_round (window_mean close period i
                                      - std_dev * window_std close period i) 2)
                    (py_range (period - 1) (int (length close)))\<rparr>"
  using assms by (simp add: compute_bollinger_bands_def bollinger_loop_total)

lemma sma_window_mean_conv:
  assumes "1 \<le> period"
  shows "sma prices period =
     Inr (replicate (nat (period - 1)) None @
          map (\<lambda>i. Some (window_mean prices period i))
            (py_range (period - 1) (int (length prices))))"
  using sma_positive_period[OF assms] by (simp add: window_mean_def)

subsection \<open>The loops of \<open>compute_rsi\<close>\<close>

lemma item_Inr_mem: "item xs i = Inr x \<Longrightarrow> x \<in> set xs"
  by (auto simp: item_def Let_def split: if_splits)

lemma gains_of_nonneg: "g \<in> set (gains_of close) \<Longrightarrow> 0 \<le> g"
  by (auto simp: gains_of_def)

lemma losses_of_nonneg: "l \<in> set (losses_of close) \<Longrightarrow> 0 \<le> l"
  by (auto simp: losses_of_def)

lemma truediv_Inr: "truediv a b = Inr q \<Longrightarrow> b \<noteq> 0 \<and> q = a / b"
  by (auto simp: truediv_def split: if_splits)

lemma and_then_eq_Inr: "and_then m f = Inr r \<longleftrightarrow> (\<exists>v. m = Inr v \<and> f v = Inr r)"
  by (cases m) simp_all

lemma py_round_percent:
  assumes "0 \<le> x" and "x \<le> 100"
  shows "0 \<le> py_round x 2 \<and> py_round x 2 \<le> 100"
  using py_round_mono[OF assms(1), of 2] py_round_mono[OF assms(2), of 2] by simp

lemma rsi_in_range:
  assumes "same_side period ag al" and "rsi ag al = Inr v"
  shows "0 \<le> v \<and> v \<le> 100"
proof (cases "al = 0")
  case True
  then show ?thesis
    using assms(2) by (auto simp: rsi_def split: if_splits)
next
  case False
  have rs: "0 \<le> ag / al"
    using assms(1) by (auto simp: same_side_def divide_nonneg_nonneg divide_nonpos_nonpos split: if_splits)
  then have pos: "1 + ag / al \<noteq> 0" by linarith
  have v: "v = py_round (100 - 100 / (1 + ag / al)) 2"
    using assms(2) False pos by (simp add: rsi_def truediv_def)
  have "0 < 100 / (1 + ag / al)"
    using rs by simp
  moreover have "100 / (1 + ag / al) \<le> 100"
    using rs by (simp add: divide_le_eq)
  ultimately show ?thesis
    unfolding v by (intro py_round_percent) simp_all
qed

lemma wilder_step_same_side:
  assumes "same_side period ag al" and "0 \<le> g" and "0 \<le> l" and "period \<noteq> 0"
  shows "same_side period ((ag * of_int (period - 1) + g) / of_int period)
           ((al * of_int (period - 1) + l) / of_int period)"
proof (cases "0 < period")
  case True
  then have "0 \<le> ag * real_of_int (period - 1) + g" "0 \<le> al * real_of_int (period - 1) + l"
    using assms by (auto simp: same_side_def)
  then show ?thesis
    using True by (simp add: same_side_def)
next
  case False
  then have neg: "period < 0" using assms(4) by simp
  then have "real_of_int (period - 1) \<le> 0" by simp
  then have "0 \<le> ag * real_of_int (period - 1)" "0 \<le> al * real_of_int (period - 1)"
    using assms(1) False by (auto simp: same_side_def mult_nonpos_nonpos)
  then have "0 \<le> ag * real_of_int (period - 1) + g" "0 \<le> al * real_of_int (period - 1) + l"
    using assms(2,3) by simp_all
  then show ?thesis
    using neg False by (simp add: same_side_def divide_nonneg_neg)
qed

lemma rsi_loop_in_range:
  assumes "\<forall>g \<in> set gains. 0 \<le> g" and "\<forall>l \<in> set losses. 0 \<le> l"
  shows "same_side period ag al \<Longrightarrow> \<forall>v. Some v \<in> set vals \<longrightarrow> 0 \<le> v \<and> v \<le> 100 \<Longrightarrow>
         rsi_loop gains losses period is (ag, al, vals) = Inr r \<Longrightarrow>
         \<forall>v. Some v \<in> set r \<longrightarrow> 0 \<le> v \<and> v \<le> 100"
proof (induction "is" arbitrary: ag al vals)
  case Nil
  then show ?case by simp
next
  case (Cons i "is")
  from Cons.prems(3) obtain g ag' l al' v where
    g: "item gains i = Inr g" and
    ag': "truediv (ag * of_int (period - 1) + g) (of_int period) = Inr ag'" and
    l: "item losses i = Inr l" and
    al': "truediv (al * of_int (period - 1) + l) (of_int period) = Inr al'" and
    v: "rsi ag' al' = Inr v" and
    rest: "rsi_loop gains losses period is (ag', al', vals @ [Some v]) = Inr r"
    by (auto simp: and_then_eq_Inr)
  have g0: "0 \<le> g" and l0: "0 \<le> l"
    using assms item_Inr_mem[OF g] item_Inr_mem[OF l] by auto
  have nz: "period \<noteq> 0"
    using truediv_Inr[OF ag'] by simp
  have side: "same_side period ag' al'"
    using wilder_step_same_side[OF Cons.prems(1) g0 l0 nz] truediv_Inr[OF ag'] truediv_Inr[OF al']
    by simp
  have "\<forall>w. Some w \<in> set (vals @ [Some v]) \<longrightarrow> 0 \<le> w \<and> w \<le> 100"
    using Cons.prems(2) rsi_in_range[OF side v] by auto
  from Cons.IH[OF side this rest] show ?case .
qed

lemma seed_same_side:
  assumes "\<forall>g \<in> set gains. 0 \<le> g" and "\<forall>l \<in> set losses. 0 \<le> l" and "period \<noteq> 0"
  shows "same_side period (sum_list (slice_to gains period) / of_int period)
           (sum_list (slice_to losses period) / of_int period)"
proof -
  have "0 \<le> sum_list (slice_to gains period)" "0 \<le> sum_list (slice_to losses period)"
    using assms(1,2) by (auto intro!: sum_list_nonneg simp: slice_to_def dest: in_set_takeD)
  then show ?thesis
    using assms(3) by (auto simp: same_side_def divide_nonneg_neg)
qed

lemma item_nat: "i < length xs \<Longrightarrow> item xs (int i) = Inr (xs ! i)"
  by (simp add: item_def)

lemma slice_to_nat: "slice_to xs (int p) = take p xs"
  by (simp add: slice_to_def slice_bound_def min_def)

lemma spec_wilder_avg_nonneg:
  assumes "\<forall>x \<in> set xs. 0 \<le> x" and "1 \<le> p"
  shows "p + k \<le> length xs \<Longrightarrow> 0 \<le> spec_wilder_avg xs p k"
proof (induction k)
  case 0
  have "0 \<le> sum_list (take p xs)"
    using assms by (auto intro!: sum_list_nonneg dest: in_set_takeD)
  then show ?case by simp
next
  case (Suc k)
  then have "0 \<le> spec_wilder_avg xs p k" "0 \<le> xs ! (p + k)"
    using assms by auto
  moreover have "0 \<le> real p - 1" using assms(2) by simp
  ultimately show ?case
    by (auto intro!: divide_nonneg_nonneg add_nonneg_nonneg mult_nonneg_nonneg)
qed

lemma rsi_policy:
  assumes "0 \<le> ag" and "0 \<le> al"
  shows "rsi ag al = Inr (spec_rsi_policy ag al)"
proof -
  have "0 \<le> ag / al" using assms by simp
  then have "1 + ag / al \<noteq> 0" by linarith
  then show ?thesis
    by (simp add: rsi_def spec_rsi_policy_def truediv_def)
qed

lemma rsi_loop_wilder:
  assumes gs: "\<forall>x \<in> set gains. 0 \<le> x" and ls: "\<forall>x \<in> set losses. 0 \<le> x"
    and len: "length losses = length gains" and p: "1 \<le> p"
  shows "p \<le> j \<Longrightarrow> j \<le> length gains \<Longrightarrow>
     rsi_loop gains losses (int p) (map int [j..<length gains])
       (spec_wilder_avg gains p (j - p), spec_wilder_avg losses p (j - p), vals) =
     Inr (vals @ map (\<lambda>i. Some (spec_rsi_policy (spec_wilder_avg gains p (Suc i - p))
                                   (spec_wilder_avg losses p (Suc i - p))))
                   [j..<length gains])"
proof (induction "length gains - j" arbitrary: j vals)
  case 0
  then show ?case by simp
next
  case (Suc d)
  then have j: "j < length gains" by simp
  have sj: "Suc j - p = Suc (j - p)" using Suc.prems by simp
  have idx: "p + (j - p) = j" using Suc.prems by simp
  have pz: "real p \<noteq> 0" using p by simp
  have ag: "(spec_wilder_avg gains p (j - p) * (real p - 1) + gains ! j) / real p
              = spec_wilder_avg gains p (Suc j - p)"
    by (simp add: sj idx)
  have al: "(spec_wilder_avg losses p (j - p) * (real p - 1) + losses ! j) / real p
              = spec_wilder_avg losses p (Suc j - p)"
    by (simp add: sj idx)
  have n1: "0 \<le> spec_wilder_avg gains p (Suc j - p)"
    using spec_wilder_avg_nonneg[OF gs p, of "Suc j - p"] j Suc.prems by simp
  have n2: "0 \<le> spec_wilder_avg losses p (Suc j - p)"
    using spec_wilder_avg_nonneg[OF ls p, of "Suc j - p"] j Suc.prems len by simp
  have IH: "rsi_loop gains losses (int p) (map int [Suc j..<length gains])
       (spec_wilder_avg gains p (Suc j - p), spec_wilder_avg losses p (Suc j - p), vals') =
     Inr (vals' @ map (\<lambda>i. Some (spec_rsi_policy (spec_wilder_avg gains p (Suc i - p))
                                   (spec_wilder_avg losses p (Suc i - p))))
                   [Suc j..<length gains])" for vals'
    using Suc.hyps(1)[of "Suc j" vals'] Suc.hyps(2) Suc.prems j by simp
  show ?case
    unfolding upt_conv_Cons[OF j] list.map rsi_loop.simps
    using j len
    by (simp add: item_nat truediv_nonzero[OF pz] ag al rsi_policy[OF n1 n2] IH)
qed

lemma length_gains_of [simp]: "length (gains_of close) = length close - 1"
  by (simp add: gains_of_def)

lemma length_losses_of [simp]: "length (losses_of close) = length close - 1"
  by (simp add: losses_of_def)

lemma compute_rsi_wilder:
  assumes "1 \<le> p" and "p + 1 \<le> length close"
  shows "compute_rsi close (int p) =
     Inr (replicate p None @
          map (\<lambda>k. Some (spec_rsi_policy (spec_wilder_avg (gains_of close) p k)
                                          (spec_wilder_avg (losses_of close) p k)))
            [0..<length close - p])"
proof -
  let ?g = "gains_of close" and ?l = "losses_of close"
  let ?f = "\<lambda>k. Some (spec_rsi_policy (spec_wilder_avg ?g p k) (spec_wilder_avg ?l p k))"
  have gs: "\<forall>x \<in> set ?g. 0 \<le> x" by (auto simp: gains_of_def)
  have ls: "\<forall>x \<in> set ?l. 0 \<le> x" by (auto simp: losses_of_def)
  have p: "1 \<le> p" using assms by simp
  have pz: "real p \<noteq> 0" using assms by simp
  have pg: "p \<le> length ?g" using assms by simp
  have n1: "0 \<le> spec_wilder_avg ?g p 0"
    using spec_wilder_avg_nonneg[OF gs p, of 0] pg by simp
  have n2: "0 \<le> spec_wilder_avg ?l p 0"
    using spec_wilder_avg_nonneg[OF ls p, of 0] pg by simp
  have range: "py_range (int p) (int (length ?g)) = map int [p..<length ?g]"
    by (rule nth_equalityI) (auto simp: py_range_def)
  have loop: "rsi_loop ?g ?l (int p) (map int [p..<length ?g])
       (spec_wilder_avg ?g p 0, spec_wilder_avg ?l p 0, vals) =
     Inr (vals @ map (\<lambda>i. ?f (Suc i - p)) [p..<length ?g])" for vals
    using rsi_loop_wilder[OF gs ls _ assms(1), of p vals] pg by simp
  have shift: "map (\<lambda>i. ?f (Suc i - p)) [p..<length ?g] = map ?f [1..<length close - p]"
    by (rule nth_equalityI) (use assms in \<open>auto simp: Suc_diff_le\<close>)
  have first: "[0..<length close - p] = 0 # [1..<length close - p]"
    using assms by (simp add: upt_conv_Cons)
  have "compute_rsi close (int p) =
     rsi_loop ?g ?l (int p) (map int [p..<length ?g])
       (spec_wilder_avg ?g p 0, spec_wilder_avg ?l p 0, replicate p None @ [?f 0])"
    using assms
    by (simp add: compute_rsi_def Let_def slice_to_nat truediv_nonzero[OF pz]
        rsi_policy[OF n1[simplified] n2[simplified]] range times_def
        del: length_gains_of length_losses_of)
  then show ?thesis
    by (simp only: loop shift first) simp
qed

lemma sum_list_all_zero: "\<forall>x \<in> set ys. x = 0 \<Longrightarrow> sum_list ys = (0::real)"
  by (induction ys) auto

lemma spec_wilder_avg_zero:
  assumes "\<forall>x \<in> set xs. x = 0"
  shows "p + k \<le> length xs \<Longrightarrow> spec_wilder_avg xs p k = 0"
proof (induction k)
  case 0
  have "\<forall>x \<in> set (take p xs). x = 0"
    using assms by (auto dest: in_set_takeD)
  then have "sum_list (take p xs) = 0"
    by (rule sum_list_all_zero)
  then show ?case by simp
next
  case (Suc k)
  then have "spec_wilder_avg xs p k = 0" "xs ! (p + k) = 0"
    using assms by auto
  then show ?case by simp
qed

lemma spec_wilder_avg_pos:
  assumes "\<forall>x \<in> set xs. 0 < x" and "1 \<le> p"
  shows "p + k \<le> length xs \<Longrightarrow> 0 < spec_wilder_avg xs p k"
proof (induction k)
  case 0
  have nonneg: "\<And>x. x \<in> set (take p xs) \<Longrightarrow> 0 \<le> x"
    using assms(1) by (auto dest!: in_set_takeD intro: less_imp_le)
  have "take p xs \<noteq> []"
    using assms(2) 0 by auto
  then obtain x where x: "x \<in> set (take p xs)"
    by (cases "take p xs") auto
  then have "0 < x" using assms(1) by (auto dest: in_set_takeD)
  then have "sum_list (take p xs) \<noteq> 0"
    using sum_list_nonneg_eq_0_iff[of "take p xs"] nonneg x by fastforce
  moreover have "0 \<le> sum_list (take p xs)"
    using nonneg by (rule sum_list_nonneg)
  ultimately have "0 < sum_list (take p xs)" by simp
  then show ?case using assms(2) by simp
next
  case (Suc k)
  then have "0 < spec_wilder_avg xs p k" "0 < xs ! (p + k)"
    using assms by auto
  moreover have "0 \<le> real p - 1" using assms(2) by simp
  ultimately have "0 < spec_wilder_avg xs p k * (real p - 1) + xs ! (p + k)"
    by (simp add: add_nonneg_pos)
  then show ?case using assms(2) by simp
qed

lemma flat_gains_losses:
  assumes "\<forall>x \<in> set close. x = c"
  shows "\<forall>x \<in> set (gains_of close). x = 0" and "\<forall>x \<in> set (losses_of close). x = 0"
proof -
  have "close ! i = c" if "i < length close" for i
    using assms nth_mem[OF that] by simp
  then show "\<forall>x \<in> set (gains_of close). x = 0" "\<forall>x \<in> set (losses_of close). x = 0"
    by (auto simp: gains_of_def losses_of_def)
qed

lemma increasing_gains_losses:
  assumes "sorted_wrt (<) close"
  shows "\<forall>x \<in> set (gains_of close). 0 < x" and "\<forall>x \<in> set (losses_of close). x = 0"
proof -
  have "close ! (i - Suc 0) < close ! i" if "Suc 0 \<le> i" "i < length close" for i
    using sorted_wrt_nth_less[OF assms, of "i - Suc 0" i] that by simp
  then show "\<forall>x \<in> set (gains_of close). 0 < x" "\<forall>x \<in> set (losses_of close). x = 0"
    by (fastforce simp: gains_of_def losses_of_def max_def)+
qed

lemma decreasing_gains_losses:
  assumes "sorted_wrt (>) close"
  shows "\<forall>x \<in> set (gains_of close). x = 0" and "\<forall>x \<in> set (losses_of close). 0 < x"
proof -
  have "close ! i < close ! (i - Suc 0)" if "Suc 0 \<le> i" "i < length close" for i
    using sorted_wrt_nth_less[OF assms, of "i - Suc 0" i] that by simp
  then show "\<forall>x \<in> set (gains_of close). x = 0" "\<forall>x \<in> set (losses_of close). 0 < x"
    by (fastforce simp: gains_of_def losses_of_def max_def)+
qed

subsection \<open>The loop of \<open>_ema\<close> and \<open>compute_macd\<close>\<close>

lemma on_grid_py_round [simp]: "on_grid nd (py_round x nd)"
  unfolding on_grid_def py_round_def by blast

lemma length_ema_loop: "length (ema_loop k ps acc) = length acc + length ps"
  by (induction ps arbitrary: acc) simp_all

lemma slice_from_nat: "p \<le> length xs \<Longrightarrow> slice_from xs (int p) = drop p xs"
  by (simp add: slice_from_def slice_bound_def)

lemma ema_positive:
  assumes "1 \<le> p" and "p \<le> length prices"
  shows "ema prices (int p) =
     Inr (ema_loop (2 / (real p + 1)) (drop p prices) [sum_list (take p prices) / real p])"
proof -
  have "real_of_int (int p + 1) \<noteq> 0" "real_of_int (int p) \<noteq> 0"
    using assms(1) by simp_all
  then show ?thesis
    using assms by (simp add: ema_def truediv_nonzero slice_to_nat slice_from_nat add.commute)
qed

lemma round_half_even_error: "\<bar>of_int (round_half_even x) - x\<bar> \<le> 1 / 2"
  unfolding round_half_even_def Let_def by (auto simp: abs_if) linarith+

lemma py_round_error: "\<bar>py_round x nd - x\<bar> \<le> 1 / 2 / 10 ^ nd"
proof -
  have "py_round x nd - x = (of_int (round_half_even (x * 10 ^ nd)) - x * 10 ^ nd) / 10 ^ nd"
    by (simp add: py_round_def diff_divide_distrib)
  then have "\<bar>py_round x nd - x\<bar> = \<bar>of_int (round_half_even (x * 10 ^ nd)) - x * 10 ^ nd\<bar> / 10 ^ nd"
    by simp
  also have "\<dots> \<le> 1 / 2 / 10 ^ nd"
    by (intro divide_right_mono round_half_even_error) simp
  finally show ?thesis .
qed

lemma on_grid_round_id: "on_grid nd v \<Longrightarrow> py_round v nd = v"
  unfolding on_grid_def by (auto simp: py_round_def)

lemma rounded_difference_gap:
  assumes "on_grid 4 m"
  shows "\<bar>py_round (m - s) 4 - (py_round m 4 - py_round s 4)\<bar> \<le> 1 / 10 ^ 4"
proof -
  have a: "\<bar>py_round (m - s) 4 - (m - s)\<bar> \<le> 1 / 2 / 10 ^ 4"
    by (rule py_round_error)
  have b: "\<bar>py_round s 4 - s\<bar> \<le> 1 / 2 / 10 ^ 4"
    by (rule py_round_error)
  have c: "py_round (m - s) 4 - (py_round m 4 - py_round s 4)
          = (py_round (m - s) 4 - (m - s)) + (py_round s 4 - s)"
    by (simp add: on_grid_round_id[OF assms])
  have "\<bar>(py_round (m - s) 4 - (m - s)) + (py_round s 4 - s)\<bar>
          \<le> \<bar>py_round (m - s) 4 - (m - s)\<bar> + \<bar>py_round s 4 - s\<bar>"
    by (rule abs_triangle_ineq)
  also have "\<dots> \<le> 1 / 2 / 10 ^ 4 + 1 / 2 / 10 ^ 4"
    by (rule add_mono[OF a b])
  also have "\<dots> = 1 / 10 ^ 4"
    by simp
  finally show ?thesis
    by (simp only: c)
qed

lemma slice_from_nonneg: "0 \<le> i \<Longrightarrow> slice_from xs i = drop (nat i) xs"
  by (simp add: slice_from_def slice_bound_def min_def)

lemma ema_returns:
  assumes "1 \<le> period"
  shows "\<exists>e. ema prices period = Inr e \<and>
           length e = (if int (length prices) < period then 0 else length prices - nat period + 1)"
proof (cases "int (length prices) < period")
  case True
  then show ?thesis by (simp add: ema_def)
next
  case False
  then have "ema prices (int (nat period)) =
      Inr (ema_loop (2 / (real (nat period) + 1)) (drop (nat period) prices)
             [sum_list (take (nat period) prices) / real (nat period)])"
    using assms by (intro ema_positive) auto
  then show ?thesis
    using assms False by (simp add: length_ema_loop)
qed

lemma compute_macd_structure:
  assumes "1 \<le> fast" and "1 \<le> slow" and "1 \<le> sig"
  shows "\<exists>al sl. length al = length sl \<and> (\<forall>m \<in> set al. on_grid 4 m) \<and>
           compute_macd close fast slow sig =
             Inr \<lparr>macd = map (\<lambda>v. py_round v 4) al,
                  signal = map (\<lambda>v. py_round v 4) sl,
                  histogram = map2 (\<lambda>m s. py_round (m - s) 4) al sl\<rparr>"
proof (cases "int (length close) < slow + sig")
  case True
  then have "compute_macd close fast slow sig =
      Inr \<lparr>macd = map (\<lambda>v. py_round v 4) [], signal = map (\<lambda>v. py_round v 4) [],
           histogram = map2 (\<lambda>m s. py_round (m - s) 4) [] []\<rparr>"
    by (simp add: compute_macd_def)
  then show ?thesis by (intro exI[of _ "[]"]) simp
next
  case False
  obtain ef where ef: "ema close fast = Inr ef"
    using ema_returns[OF assms(1)] by blast
  obtain es where es: "ema close slow = Inr es"
    using ema_returns[OF assms(2)] by blast
  define ml where "ml = map2 (\<lambda>f s. py_round (f - s) 4) (slice_from ef (slow - fast)) es"
  obtain sl where sl: "ema ml sig = Inr sl"
    and lsl: "length sl = (if int (length ml) < sig then 0 else length ml - nat sig + 1)"
    using ema_returns[OF assms(3), of ml] by blast
  define al where "al = drop (nat (sig - 1)) ml"
  have sa: "slice_from ml (sig - 1) = al"
    using assms(3) by (simp add: slice_from_nonneg al_def)
  have len: "length al = length sl"
    using assms(3) lsl by (auto simp: al_def)
  have grid: "\<forall>m \<in> set al. on_grid 4 m"
    by (auto simp: al_def ml_def set_zip dest!: in_set_dropD)
  have "compute_macd close fast slow sig =
          and_then (ema ml sig) (\<lambda>signal_line.
            Inr \<lparr>macd = map (\<lambda>v. py_round v 4) (slice_from ml (sig - 1)),
                 signal = map (\<lambda>v. py_round v 4) signal_line,
                 histogram = map2 (\<lambda>m s. py_round (m - s) 4) (slice_from ml (sig - 1)) signal_line\<rparr>)"
    using False by (simp add: compute_macd_def ef es Let_def ml_def)
  then have "compute_macd close fast slow sig =
          Inr \<lparr>macd = map (\<lambda>v. py_round v 4) al,
               signal = map (\<lambda>v. py_round v 4) sl,
               histogram = map2 (\<lambda>m s. py_round (m - s) 4) al sl\<rparr>"
    by (simp add: sl sa)
  then show ?thesis
    using len grid by blast
qed

subsection \<open>\<open>compute_indicators\<close>\<close>

lemma last_valid_snoc:
  "last_valid (xs @ [x]) = (if x \<noteq> None then x else last_valid xs)"
  by (auto simp: last_valid_def)

lemma last_valid_is_last_non_marker: "last_valid xs = last_non_marker xs"
proof (induction xs rule: rev_induct)
  case Nil
  show ?case by (simp add: last_valid_def last_non_marker_def)
next
  case (snoc x xs)
  show ?case
    unfolding last_valid_snoc using snoc by (auto simp: last_non_marker_def)
qed

lemma last_non_marker_mem: "last_non_marker xs = Some v \<Longrightarrow> Some v \<in> set xs"
proof -
  assume a: "last_non_marker xs = Some v"
  then have ne: "filter (\<lambda>v. v \<noteq> None) xs \<noteq> []"
    by (auto simp: last_non_marker_def split: if_splits)
  then have "last (filter (\<lambda>v. v \<noteq> None) xs) \<in> set (filter (\<lambda>v. v \<noteq> None) xs)"
    by (rule last_in_set)
  then show ?thesis
    using a ne by (auto simp: last_non_marker_def)
qed

lemma last_non_marker_None: "last_non_marker xs = None \<longleftrightarrow> (\<forall>v. Some v \<notin> set xs)"
proof
  assume a: "last_non_marker xs = None"
  show "\<forall>v. Some v \<notin> set xs"
  proof (cases "filter (\<lambda>v. v \<noteq> None) xs = []")
    case True
    then show ?thesis by (auto simp: filter_empty_conv)
  next
    case False
    then have "last (filter (\<lambda>v. v \<noteq> None) xs) \<in> set (filter (\<lambda>v. v \<noteq> None) xs)"
      by (rule last_in_set)
    then show ?thesis
      using a False by (auto simp: last_non_marker_def)
  qed
next
  assume "\<forall>v. Some v \<notin> set xs"
  then have "\<forall>x \<in> set xs. x = None"
    by (metis option.exhaust)
  then have "filter (\<lambda>v. v \<noteq> None) xs = []"
    by (simp add: filter_empty_conv)
  then show "last_non_marker xs = None"
    by (simp add: last_non_marker_def)
qed

lemma rsi_rounded: "rsi ag al = Inr v \<Longrightarrow> py_round v 2 = v"
  using py_round_of_int[of 50 2]
  by (auto simp: rsi_def and_then_eq_Inr py_round_idem dest!: truediv_Inr split: if_splits)

lemma rsi_loop_rounded:
  "\<forall>v. Some v \<in> set vals \<longrightarrow> py_round v 2 = v \<Longrightarrow>
   rsi_loop gains losses period is (ag, al, vals) = Inr r \<Longrightarrow>
   \<forall>v. Some v \<in> set r \<longrightarrow> py_round v 2 = v"
proof (induction "is" arbitrary: ag al vals)
  case Nil
  then show ?case by simp
next
  case (Cons i "is")
  from Cons.prems(2) obtain ag' al' v where
    v: "rsi ag' al' = Inr v" and
    rest: "rsi_loop gains losses period is (ag', al', vals @ [Some v]) = Inr r"
    by (auto simp: and_then_eq_Inr)
  have "\<forall>w. Some w \<in> set (vals @ [Some v]) \<longrightarrow> py_round w 2 = w"
    using Cons.prems(1) rsi_rounded[OF v] by auto
  from Cons.IH[OF this rest] show ?case .
qed

lemma compute_rsi_rounded:
  assumes "compute_rsi close period = Inr r" and "Some v \<in> set r"
  shows "py_round v 2 = v"
proof (cases "int (length close) < period + 1")
  case True
  then show ?thesis
    using assms by (auto simp: compute_rsi_def times_def)
next
  case False
  from assms(1) False obtain ag al v0 where
    v0: "rsi ag al = Inr v0" and
    loop: "rsi_loop (gains_of close) (losses_of close) period
             (py_range period (int (length (gains_of close))))
             (ag, al, times None period @ [Some v0]) = Inr r"
    by (auto simp: compute_rsi_def Let_def and_then_eq_Inr)
  have "\<forall>w. Some w \<in> set (times None period @ [Some v0]) \<longrightarrow> py_round w 2 = w"
    using rsi_rounded[OF v0] by (auto simp: times_def)
  from rsi_loop_rounded[OF this loop] assms(2) show ?thesis by blast
qed

lemma round_if_truthy_None [simp]: "round_if_truthy None = None"
  by (simp add: round_if_truthy_def truthy_def)

lemma round_if_truthy_nonzero: "v \<noteq> 0 \<Longrightarrow> round_if_truthy (Some v) = Some (py_round v 2)"
  by (simp add: round_if_truthy_def truthy_def)

lemma compute_indicators_Inr:
  assumes "compute_indicators dates close high low volume = Inr r"
  shows "\<exists>sma_20 sma_50 sma_200 rsi_14 macd_data bb_data.
           sma close 20 = Inr sma_20 \<and> sma close 50 = Inr sma_50 \<and>
           sma close 200 = Inr sma_200 \<and> compute_rsi close 14 = Inr rsi_14 \<and>
           compute_macd close 12 26 9 = Inr macd_data \<and>
           compute_bollinger_bands close 20 2 = Inr bb_data \<and>
           ind_rsi r = rsi_14 \<and> ind_macd r = macd_data \<and> ind_bollinger_bands r = bb_data \<and>
           ind_sma_20 r = sma_20 \<and> ind_sma_50 r = sma_50 \<and> ind_sma_200 r = sma_200 \<and>
           latest_rsi (ind_latest r) = round_if_truthy (last_valid rsi_14) \<and>
           latest_sma_20 (ind_latest r) = round_if_truthy (last_valid sma_20) \<and>
           latest_sma_50 (ind_latest r) = round_if_truthy (last_valid sma_50) \<and>
           latest_sma_200 (ind_latest r) = round_if_truthy (last_valid sma_200) \<and>
           latest_macd (ind_latest r) = last_or_none (macd macd_data) \<and>
           latest_macd_signal (ind_latest r) = last_or_none (signal macd_data) \<and>
           latest_bb_upper (ind_latest r) = last_or_none (upper bb_data) \<and>
           latest_bb_lower (ind_latest r) = last_or_none (lower bb_data)"
  using assms unfolding compute_indicators_def and_then_eq_Inr Let_def
  by (elim exE conjE) auto

lemma compute_rsi_14_returns: "\<exists>r. compute_rsi close 14 = Inr r"
proof (cases "length close < 15")
  case True
  then show ?thesis by (simp add: compute_rsi_def)
next
  case False
  then show ?thesis
    using compute_rsi_wilder[of 14 close] by simp
qed

lemma compute_macd_default_returns: "\<exists>r. compute_macd close 12 26 9 = Inr r"
  using compute_macd_structure[of 12 26 9 close] by auto

lemma compute_bollinger_default_returns: "\<exists>r. compute_bollinger_bands close 20 2 = Inr r"
proof (cases "length close < 20")
  case True
  then show ?thesis by (simp add: compute_bollinger_bands_def)
next
  case False
  then show ?thesis
    using compute_bollinger_bands_total[of 20 close 2] by simp
qed

lemma price_30d_ago_returns:
  assumes "close \<noteq> []"
  shows "\<exists>p. (if 30 \<le> length close then item close (- 30) else item close 0) = Inr p"
  using assms by (simp add: item_def)

lemma compute_indicators_returns:
  assumes "close \<noteq> []"
  shows "\<exists>r. compute_indicators dates close high low volume = Inr r"
proof -
  obtain rs where rs: "compute_rsi close 14 = Inr rs"
    using compute_rsi_14_returns by blast
  obtain md where md: "compute_macd close 12 26 9 = Inr md"
    using compute_macd_default_returns by blast
  obtain bb where bb: "compute_bollinger_bands close 20 2 = Inr bb"
    using compute_bollinger_default_returns by blast
  obtain p where p: "(if 30 \<le> length close then item close (- 30) else item close 0) = Inr p"
    using price_30d_ago_returns[OF assms] by blast
  show ?thesis
    unfolding compute_indicators_def
    by (simp add: sma_positive_period rs md bb p Let_def del: if_split)
qed

text \<open>The summary of two concrete series, evaluated in full.\<close>

lemma last_valid_append_Some: "last_valid (xs @ [Some v]) = Some v"
  by (simp add: last_valid_def)

lemma last_valid_replicate_None: "last_valid (replicate n None) = None"
  by (simp add: last_valid_is_last_non_marker last_non_marker_None)

lemma last_non_marker_append_Some: "last_non_marker (xs @ [Some v]) = Some v"
  by (simp add: last_valid_is_last_non_marker[symmetric] last_valid_append_Some)

lemma last_non_marker_replicate_None: "last_non_marker (replicate n None) = None"
  by (simp add: last_non_marker_None)

lemma last_non_marker_flat_rsi:
  "last_non_marker (replicate 14 None @ replicate 6 (Some (50::real))) = Some 50"
proof -
  have "replicate 6 (Some (50::real)) = replicate 5 (Some 50) @ [Some 50]"
    by (simp add: eval_nat_numeral replicate_append_same)
  then show ?thesis
    by (simp only: append_assoc[symmetric] last_non_marker_append_Some)
qed

lemma indicators_flat_20:
  "compute_indicators [] (replicate 20 (129 / 128)) [] [] [] =
     Inr \<lparr>ind_rsi = replicate 14 None @ replicate 6 (Some 50),
          ind_macd = \<lparr>macd = [], signal = [], histogram = []\<rparr>,
          ind_bollinger_bands = \<lparr>upper = [101 / 100], middle = [101 / 100], lower = [101 / 100]\<rparr>,
          ind_sma_20 = replicate 19 None @ [Some (129 / 128)],
          ind_sma_50 = replicate 49 None,
          ind_sma_200 = replicate 199 None,
          ind_latest =
            \<lparr>latest_close = 129 / 128,
             latest_rsi = Some 50,
             latest_macd = None,
             latest_macd_signal = None,
             latest_macd_histogram = None,
             latest_sma_20 = Some (101 / 100),
             latest_sma_50 = None,
             latest_sma_200 = None,
             latest_bb_upper = Some (101 / 100),
             latest_bb_lower = Some (101 / 100),
             latest_trend = ''Sideways'',
             latest_trend_30d_pct = 0\<rparr>,
          ind_signals = [Rsi_Neutral 50, Below_Lower_Band],
          ind_data_points = 20\<rparr>"
proof -
  let ?c = "replicate 20 (129 / 128 :: real)"
  have t1: "sma ?c 20 = Inr (replicate 19 None @ [Some (129 / 128)])"
    by (simp add: sma_def py_range_def times_def truediv_def slice_def slice_bound_def
        upto.simps eval_nat_numeral)
  have t2: "sma ?c 50 = Inr (replicate 49 None)" "sma ?c 200 = Inr (replicate 199 None)"
    by (simp_all add: sma_def py_range_def times_def)
  have t3: "compute_bollinger_bands ?c 20 2 =
      Inr \<lparr>upper = [101 / 100], middle = [101 / 100], lower = [101 / 100]\<rparr>"
    by (simp add: compute_bollinger_bands_def py_range_def times_def truediv_def slice_def
        slice_bound_def upto.simps eval_nat_numeral math_sqrt_def py_round_def
        round_half_even_def)
  have t4: "compute_rsi ?c 14 = Inr (replicate 14 None @ replicate 6 (Some 50))"
    by (simp add: compute_rsi_def rsi_def gains_of_def losses_of_def Let_def item_def
        py_range_def times_def truediv_def slice_to_def slice_bound_def upto.simps upt_rec
        eval_nat_numeral)
  have t5: "compute_macd ?c 12 26 9 = Inr \<lparr>macd = [], signal = [], histogram = []\<rparr>"
    by (simp add: compute_macd_def)
  have lv: "last_valid (replicate 14 None @ replicate 6 (Some (50::real))) = Some 50"
    by (simp only: last_valid_is_last_non_marker last_non_marker_flat_rsi)
  show ?thesis
    unfolding compute_indicators_def t1 t2 t3 t4 t5 and_then_Inr
    by (simp add: Let_def lv last_valid_append_Some last_valid_replicate_None last_or_none_def
        round_if_truthy_def truthy_def rsi_signals_def macd_signals_def cross_signals_def
        band_signals_def item_def py_round_def round_half_even_def)
qed

lemma indicators_falling_15:
  "compute_indicators [] [15, 14, 13, 12, 11, 10, 9, 8, 7, 6, 5, 4, 3, 2, 1] [] [] [] =
     Inr \<lparr>ind_rsi = replicate 14 None @ [Some 0],
          ind_macd = \<lparr>macd = [], signal = [], histogram = []\<rparr>,
          ind_bollinger_bands = \<lparr>upper = [], middle = [], lower = []\<rparr>,
          ind_sma_20 = replicate 19 None,
          ind_sma_50 = replicate 49 None,
          ind_sma_200 = replicate 199 None,
          ind_latest =
            \<lparr>latest_close = 1,
             latest_rsi = None,
             latest_macd = None,
             latest_macd_signal = None,
             latest_macd_histogram = None,
             latest_sma_20 = None,
             latest_sma_50 = None,
             latest_sma_200 = None,
             latest_bb_upper = None,
             latest_bb_lower = None,
             latest_trend = ''Downtrend'',
             latest_trend_30d_pct = - (9333 / 100)\<rparr>,
          ind_signals = [Rsi_Oversold 0],
          ind_data_points = 15\<rparr>"
proof -
  let ?c = "[15, 14, 13, 12, 11, 10, 9, 8, 7, 6, 5, 4, 3, 2, 1 :: real]"
  have t2: "sma ?c 20 = Inr (replicate 19 None)" "sma ?c 50 = Inr (replicate 49 None)"
    "sma ?c 200 = Inr (replicate 199 None)"
    by (simp_all add: sma_def py_range_def times_def)
  have t3: "compute_bollinger_bands ?c 20 2 = Inr \<lparr>upper = [], middle = [], lower = []\<rparr>"
    by (simp add: compute_bollinger_bands_def)
  have t4: "compute_rsi ?c 14 = Inr (replicate 14 None @ [Some 0])"
    by (simp add: compute_rsi_def rsi_def gains_of_def losses_of_def Let_def item_def
        py_range_def times_def truediv_def slice_to_def slice_bound_def upto.simps upt_rec
        eval_nat_numeral)
  have t5: "compute_macd ?c 12 26 9 = Inr \<lparr>macd = [], signal = [], histogram = []\<rparr>"
    by (simp add: compute_macd_def)
  show ?thesis
    unfolding compute_indicators_def t2 t3 t4 t5 and_then_Inr
    by (simp add: Let_def last_valid_append_Some last_valid_replicate_None last_or_none_def
        round_if_truthy_def truthy_def rsi_signals_def macd_signals_def cross_signals_def
        band_signals_def item_def py_round_def round_half_even_def)
qed

section \<open>Simple moving average\<close>

text \<open>
  Claim C2, as amended. For a period of at least 1 and a list of at least
  \<open>period - 1\<close> prices, \<open>_sma\<close> returns a list as long as the prices; its first
  \<open>period - 1\<close> entries are \<open>None\<close>, and entry \<open>i \<ge> period - 1\<close> is the mean of the
  \<open>period\<close> prices ending at \<open>i\<close>. (With 20 or more prices and period 20 this gives 19
  leading \<open>None\<close> and the mean of the first 20 prices at index 19.)
\<close>

theorem sma_window_mean:
  assumes "1 \<le> period" and "period - 1 \<le> int (length prices)"
  shows "\<exists>r. sma prices period = Inr r \<and> length r = length prices \<and>
           (\<forall>i < nat (period - 1). r ! i = None) \<and>
           (\<forall>i. nat (period - 1) \<le> i \<and> i < length prices \<longrightarrow>
              r ! i = Some (sum_list (take (nat period) (drop (Suc i - nat period) prices))
                            / of_int period))"
proof -
  define p where "p = nat period"
  have p: "period = int p" "1 \<le> p" "p - 1 \<le> length prices"
    using assms by (auto simp: p_def)
  let ?f = "\<lambda>i. Some (sum_list (slice prices (i - period + 1) (i + 1)) / of_int period)"
  let ?r = "replicate (p - 1) None @ map ?f (py_range (period - 1) (int (length prices)))"
  have eq: "sma prices period = Inr ?r"
    using sma_positive_period[OF assms(1)] p by (simp add: nat_diff_distrib')
  have len: "length ?r = length prices"
    using p by (simp add: length_py_range) 
  have none: "\<forall>i < nat (period - 1). ?r ! i = None"
    using p by (auto simp: nth_append nat_diff_distrib')
  have some: "?r ! i = Some (sum_list (take (nat period) (drop (Suc i - nat period) prices)) / of_int period)"
    if "nat (period - 1) \<le> i \<and> i < length prices" for i
  proof -
    have i: "p - 1 \<le> i" "i < length prices" using that p by (auto simp: nat_diff_distrib')
    have "?r ! i = (map ?f (py_range (period - 1) (int (length prices)))) ! (i - (p - 1))"
      using i by (simp add: nth_append)
    also have "\<dots> = ?f (int i)"
      using i p by (simp add: py_range_conv)
    also have "\<dots> = Some (sum_list (take p (drop (Suc i - p) prices)) / of_int period)"
      using slice_window[of p i prices] i p by simp
    finally show ?thesis by (simp add: p_def)
  qed
  show ?thesis using eq len none some by blast
qed

theorem sma_window_mean_witness:
  "(1::int) \<le> 2 \<and> (2::int) - 1 \<le> int (length [1, 2, 3::real]) \<and>
   (\<exists>r. sma [1, 2, 3] 2 = Inr r \<and> length r = 3 \<and> r ! 0 = None \<and> r ! 2 = Some (5 / 2))"
proof -
  obtain r where r: "sma [1, 2, 3] 2 = Inr r" "length r = length [1, 2, 3::real]"
      "\<forall>i < nat (2 - 1). r ! i = None"
      "\<forall>i. nat (2 - 1) \<le> i \<and> i < length [1, 2, 3::real] \<longrightarrow>
         r ! i = Some (sum_list (take (nat 2) (drop (Suc i - nat 2) [1, 2, 3])) / of_int 2)"
    using sma_window_mean[of 2 "[1, 2, 3]"] by auto
  have "r ! 0 = None"
    using r(3) by simp
  moreover have "r ! 2 = Some (5 / 2)"
    using r(4)[rule_format, of 2] by (simp add: numeral_2_eq_2)
  ultimately show ?thesis
    using r(1,2) by auto
qed

text \<open>
  Claim C2 as stated fails outside that range. With fewer than \<open>period - 1\<close> prices the
  result is \<open>period - 1\<close> markers, longer than the input; with period 0 the first window is
  divided by zero; with a negative period the loop starts below index 0 and the result is
  longer than the input.
\<close>

theorem sma_length_counterexample:
  "sma [1, 2, 3] 10 = Inr [None, None, None, None, None, None, None, None, None] \<and>
   sma [] 0 = Inl ZeroDivisionError \<and>
   sma [1, 2, 3] (- 1) = Inr [Some (- 3), Some 0, Some 0, Some 0, Some 0]"
  by (simp add: sma_def py_range_def times_def truediv_def slice_def slice_bound_def
      upto.simps eval_nat_numeral)

section \<open>Bollinger bands\<close>

text \<open>
  Claim C6. For a window size \<open>period \<ge> 1\<close>, a multiplier \<open>std_dev \<ge> 0\<close> (2.0 by
  default) and at least \<open>period\<close> closes, \<open>compute_bollinger_bands\<close> returns three
  series of length \<open>n - period + 1\<close> with \<open>lower \<le> middle \<le> upper\<close> at every position.
\<close>

theorem bollinger_bands_ordered:
  assumes "1 \<le> period" and "period \<le> int (length close)" and "0 \<le> std_dev"
  shows "\<exists>bb. compute_bollinger_bands close period std_dev = Inr bb \<and>
           int (length (upper bb)) = int (length close) - period + 1 \<and>
           int (length (middle bb)) = int (length close) - period + 1 \<and>
           int (length (lower bb)) = int (length close) - period + 1 \<and>
           (\<forall>i < length (middle bb).
              lower bb ! i \<le> middle bb ! i \<and> middle bb ! i \<le> upper bb ! i)"
proof -
  have "0 \<le> std_dev * window_std close period i" for i
    using assms(1,3) window_std_nonneg by simp
  then have "py_round (window_mean close period i - std_dev * window_std close period i) 2
               \<le> py_round (window_mean close period i) 2 \<and>
             py_round (window_mean close period i) 2
               \<le> py_round (window_mean close period i + std_dev * window_std close period i) 2" for i
    by (simp add: py_round_mono)
  then show ?thesis
    using assms(1,2)
    by (simp add: compute_bollinger_bands_total[OF assms(1,2)] length_py_range)
qed

theorem bollinger_bands_ordered_witness:
  "(1::int) \<le> 2 \<and> (2::int) \<le> int (length [1, 1, 3, 3::real]) \<and> (0::real) \<le> 2 \<and>
   (\<exists>bb. compute_bollinger_bands [1, 1, 3, 3] 2 2 = Inr bb \<and>
      length (upper bb) = 3 \<and> length (middle bb) = 3 \<and> length (lower bb) = 3 \<and>
      lower bb ! 1 \<le> middle bb ! 1 \<and> middle bb ! 1 \<le> upper bb ! 1)"
proof -
  obtain bb where bb: "compute_bollinger_bands [1, 1, 3, 3] 2 2 = Inr bb"
      "int (length (upper bb)) = int (length [1, 1, 3, 3::real]) - 2 + 1"
      "int (length (middle bb)) = int (length [1, 1, 3, 3::real]) - 2 + 1"
      "int (length (lower bb)) = int (length [1, 1, 3, 3::real]) - 2 + 1"
      "\<forall>i < length (middle bb). lower bb ! i \<le> middle bb ! i \<and> middle bb ! i \<le> upper bb ! i"
    using bollinger_bands_ordered[of 2 "[1, 1, 3, 3]" 2] by auto
  have len: "length (upper bb) = 3" "length (middle bb) = 3" "length (lower bb) = 3"
    using bb(2,3,4) by simp_all
  have "lower bb ! 1 \<le> middle bb ! 1 \<and> middle bb ! 1 \<le> upper bb ! 1"
    using bb(5) len(2) by simp
  then show ?thesis
    using bb(1) len by auto
qed

text \<open>
  Claim C10. For \<open>period \<ge> 1\<close> and at least \<open>period\<close> closes, the middle band is the
  simple moving average from index \<open>period - 1\<close> on, each value rounded to 2 decimals:
  \<open>middle[j] = round(_sma(close, period)[j + period - 1], 2)\<close>.
\<close>

theorem bollinger_middle_is_rounded_sma:
  assumes "1 \<le> period" and "period \<le> int (length close)"
  shows "\<exists>bb s. compute_bollinger_bands close period std_dev = Inr bb \<and>
           sma close period = Inr s \<and>
           map Some (middle bb) =
             map (map_option (\<lambda>v. py_round v 2)) (drop (nat (period - 1)) s)"
  by (simp add: compute_bollinger_bands_total[OF assms] sma_window_mean_conv[OF assms(1)] comp_def)

theorem bollinger_middle_is_rounded_sma_witness:
  "(1::int) \<le> 2 \<and> (2::int) \<le> int (length [1, 1, 3, 3::real]) \<and>
   (\<exists>bb s. compute_bollinger_bands [1, 1, 3, 3] 2 2 = Inr bb \<and>
      sma [1, 1, 3, 3] 2 = Inr s \<and> s = [None, Some 1, Some 2, Some 3] \<and>
      middle bb = [1, 2, 3])"
proof -
  obtain bb s where bs: "compute_bollinger_bands [1, 1, 3, 3] 2 2 = Inr bb"
      "sma [1, 1, 3, 3] 2 = Inr s"
      "map Some (middle bb) = map (map_option (\<lambda>v. py_round v 2)) (drop (nat (2 - 1)) s)"
    using bollinger_middle_is_rounded_sma[of 2 "[1, 1, 3, 3]" 2] by auto
  have s: "s = [None, Some 1, Some 2, Some 3]"
    using bs(2)
    by (simp add: sma_def py_range_def times_def truediv_def slice_def slice_bound_def
        upto.simps eval_nat_numeral)
  have "map Some (middle bb) = map Some [1, 2, 3]"
    using bs(3) py_round_of_int[of 1 2] py_round_of_int[of 2 2] py_round_of_int[of 3 2]
    unfolding s by simp
  then have "middle bb = [1, 2, 3]"
    by (metis list.inj_map_strong option.inject)
  then show ?thesis
    using bs(1,2) s by auto
qed

section \<open>Relative strength index\<close>

text \<open>
  Claim C7. For every close series and every period, whenever \<open>compute_rsi\<close> returns a
  series, each value in it that is not \<open>None\<close> lies between 0 and 100.
\<close>

theorem compute_rsi_in_range:
  assumes "compute_rsi close period = Inr r" and "Some v \<in> set r"
  shows "0 \<le> v \<and> v \<le> 100"
proof (cases "int (length close) < period + 1")
  case True
  then show ?thesis
    using assms by (auto simp: compute_rsi_def times_def)
next
  case False
  from assms(1) False obtain ag al v0 where
    ag: "truediv (sum_list (slice_to (gains_of close) period)) (of_int period) = Inr ag" and
    al: "truediv (sum_list (slice_to (losses_of close) period)) (of_int period) = Inr al" and
    v0: "rsi ag al = Inr v0" and
    loop: "rsi_loop (gains_of close) (losses_of close) period
             (py_range period (int (length (gains_of close))))
             (ag, al, times None period @ [Some v0]) = Inr r"
    by (auto simp: compute_rsi_def Let_def and_then_eq_Inr)
  have nz: "period \<noteq> 0"
    using truediv_Inr[OF ag] by simp
  have side: "same_side period ag al"
    using seed_same_side[of "gains_of close" "losses_of close" period, OF _ _ nz]
      gains_of_nonneg losses_of_nonneg truediv_Inr[OF ag] truediv_Inr[OF al] by simp
  have "\<forall>w. Some w \<in> set (times None period @ [Some v0]) \<longrightarrow> 0 \<le> w \<and> w \<le> 100"
    using rsi_in_range[OF side v0] by (auto simp: times_def)
  from rsi_loop_in_range[OF _ _ side this loop] gains_of_nonneg losses_of_nonneg assms(2)
  show ?thesis by blast
qed

theorem compute_rsi_in_range_witness:
  "compute_rsi [1, 2, 3, 2, 5] 2 = Inr [None, None, Some 100, Some 50, Some (175 / 2)] \<and>
   (0::real) \<le> 175 / 2 \<and> (175 / 2::real) \<le> 100"
proof -
  have e: "compute_rsi [1, 2, 3, 2, 5] 2 = Inr [None, None, Some 100, Some 50, Some (175 / 2)]"
    by (simp add: compute_rsi_def rsi_def gains_of_def losses_of_def Let_def item_def
        py_range_def times_def truediv_def slice_to_def slice_bound_def upto.simps py_round_def
        round_half_even_def upt_rec eval_nat_numeral)
  have m: "Some (175 / 2) \<in> set [None, None, Some 100, Some 50, Some (175 / 2::real)]"
    by simp
  show ?thesis
    using compute_rsi_in_range[OF e m] e by simp
qed

text \<open>
  Claim C1. For a look-back period of at least 1 and at least \<open>period + 1\<close> closes,
  \<open>compute_rsi\<close> returns a series as long as the closes; its first \<open>period\<close> entries are
  \<open>None\<close>, and entry \<open>period + k\<close> is the value the three-branch policy gives for the
  Wilder averages of the gains and of the losses after \<open>k\<close> steps: 50 if both are zero,
  otherwise 100 if the average loss is zero, otherwise
  \<open>100 - 100 / (1 + avg_gain / avg_loss)\<close> rounded to 2 decimals.
\<close>

theorem compute_rsi_three_branch_policy:
  assumes "1 \<le> period" and "period + 1 \<le> int (length close)"
  shows "\<exists>r. compute_rsi close period = Inr r \<and> length r = length close \<and>
           (\<forall>i < nat period. r ! i = None) \<and>
           (\<forall>k. nat period + k < length close \<longrightarrow>
              r ! (nat period + k) =
                Some (let avg_gain = spec_wilder_avg (gains_of close) (nat period) k;
                          avg_loss = spec_wilder_avg (losses_of close) (nat period) k
                      in if avg_gain = 0 \<and> avg_loss = 0 then 50
                         else if avg_loss = 0 then 100
                         else py_round (100 - 100 / (1 + avg_gain / avg_loss)) 2))"
proof -
  define p where "p = nat period"
  have p: "period = int p" "1 \<le> p" "p + 1 \<le> length close"
    using assms by (auto simp: p_def)
  let ?f = "\<lambda>k. Some (spec_rsi_policy (spec_wilder_avg (gains_of close) p k)
                                     (spec_wilder_avg (losses_of close) p k))"
  let ?r = "replicate p None @ map ?f [0..<length close - p]"
  have eq: "compute_rsi close period = Inr ?r"
    unfolding p(1) by (rule compute_rsi_wilder[OF p(2,3)])
  have len: "length ?r = length close"
    using p by simp
  have none: "\<forall>i < p. ?r ! i = None"
    by (simp add: nth_append)
  have some: "\<forall>k. p + k < length close \<longrightarrow> ?r ! (p + k) = ?f k"
  proof (intro allI impI)
    fix k
    assume "p + k < length close"
    then have "k < length close - p" by simp
    then show "?r ! (p + k) = ?f k" by (simp add: nth_append)
  qed
  show ?thesis
    using eq len none some
    by (simp only: p_def[symmetric] spec_rsi_policy_def Let_def) blast
qed

theorem compute_rsi_three_branch_policy_witness:
  "(1::int) \<le> 2 \<and> (2::int) + 1 \<le> int (length [1, 2, 3, 2, 5::real]) \<and>
   (\<exists>r. compute_rsi [1, 2, 3, 2, 5] 2 = Inr r \<and> length r = 5 \<and> r ! 0 = None \<and>
      r ! 2 = Some 100 \<and> r ! 3 = Some 50 \<and> r ! 4 = Some (175 / 2))"
proof -
  let ?c = "[1, 2, 3, 2, 5::real]"
  obtain r where r: "compute_rsi ?c 2 = Inr r" "length r = length ?c"
      "\<forall>i < nat 2. r ! i = None"
      "\<forall>k. nat 2 + k < length ?c \<longrightarrow>
         r ! (nat 2 + k) =
           Some (let avg_gain = spec_wilder_avg (gains_of ?c) (nat 2) k;
                     avg_loss = spec_wilder_avg (losses_of ?c) (nat 2) k
                 in if avg_gain = 0 \<and> avg_loss = 0 then 50
                    else if avg_loss = 0 then 100
                    else py_round (100 - 100 / (1 + avg_gain / avg_loss)) 2)"
    using compute_rsi_three_branch_policy[of 2 ?c] by auto
  have "r ! 0 = None"
    using r(3) by simp
  moreover have "r ! 2 = Some 100"
    using r(4)[rule_format, of 0]
    by (simp add: gains_of_def losses_of_def upt_rec eval_nat_numeral)
  moreover have "r ! 3 = Some 50"
    using r(4)[rule_format, of 1]
    by (simp add: gains_of_def losses_of_def upt_rec eval_nat_numeral py_round_def
        round_half_even_def)
  moreover have "r ! 4 = Some (175 / 2)"
    using r(4)[rule_format, of 2]
    by (simp add: gains_of_def losses_of_def upt_rec eval_nat_numeral py_round_def
        round_half_even_def)
  ultimately show ?thesis
    using r(1,2) by auto
qed

text \<open>
  Claim C8. For a look-back period of at least 1 and at least \<open>period + 1\<close> closes, the
  series has a value, and every value in it is 50 if all closes are equal, 100 if the
  closes are strictly increasing, and 0 if they are strictly decreasing.
\<close>

theorem compute_rsi_flat_rising_falling:
  assumes "1 \<le> period" and "period + 1 \<le> int (length close)"
  shows "\<exists>r. compute_rsi close period = Inr r \<and> (\<exists>v. Some v \<in> set r) \<and>
           ((\<forall>x \<in> set close. x = c) \<longrightarrow> (\<forall>v. Some v \<in> set r \<longrightarrow> v = 50)) \<and>
           (sorted_wrt (<) close \<longrightarrow> (\<forall>v. Some v \<in> set r \<longrightarrow> v = 100)) \<and>
           (sorted_wrt (>) close \<longrightarrow> (\<forall>v. Some v \<in> set r \<longrightarrow> v = 0))"
proof -
  define p where "p = nat period"
  have p: "period = int p" "1 \<le> p" "p + 1 \<le> length close"
    using assms by (auto simp: p_def)
  let ?g = "gains_of close" and ?l = "losses_of close"
  let ?f = "\<lambda>k. Some (spec_rsi_policy (spec_wilder_avg ?g p k) (spec_wilder_avg ?l p k))"
  let ?r = "replicate p None @ map ?f [0..<length close - p]"
  have eq: "compute_rsi close period = Inr ?r"
    unfolding p(1) by (rule compute_rsi_wilder[OF p(2,3)])
  have ex: "\<exists>v. Some v \<in> set ?r"
    using p by (auto intro!: exI[of _ "spec_rsi_policy (spec_wilder_avg ?g p 0) (spec_wilder_avg ?l p 0)"] image_eqI[of _ _ 0])
  have mem: "\<exists>k. p + k \<le> length ?g \<and> v = spec_rsi_policy (spec_wilder_avg ?g p k) (spec_wilder_avg ?l p k)"
    if "Some v \<in> set ?r" for v
  proof -
    from that obtain k where "k < length close - p"
      "v = spec_rsi_policy (spec_wilder_avg ?g p k) (spec_wilder_avg ?l p k)" by auto
    moreover from this(1) have "p + k \<le> length ?g" by simp
    ultimately show ?thesis by blast
  qed
  have flat: "v = 50" if "\<forall>x \<in> set close. x = c" "Some v \<in> set ?r" for v
  proof -
    from mem[OF that(2)] obtain k where k: "p + k \<le> length ?g"
      "v = spec_rsi_policy (spec_wilder_avg ?g p k) (spec_wilder_avg ?l p k)" by blast
    have "spec_wilder_avg ?g p k = 0" "spec_wilder_avg ?l p k = 0"
      using spec_wilder_avg_zero[OF flat_gains_losses(1)[OF that(1)], of p k]
        spec_wilder_avg_zero[OF flat_gains_losses(2)[OF that(1)], of p k] k(1) by simp_all
    then show ?thesis by (simp add: k(2) spec_rsi_policy_def)
  qed
  have rising: "v = 100" if "sorted_wrt (<) close" "Some v \<in> set ?r" for v
  proof -
    from mem[OF that(2)] obtain k where k: "p + k \<le> length ?g"
      "v = spec_rsi_policy (spec_wilder_avg ?g p k) (spec_wilder_avg ?l p k)" by blast
    have "0 < spec_wilder_avg ?g p k" "spec_wilder_avg ?l p k = 0"
      using spec_wilder_avg_pos[OF increasing_gains_losses(1)[OF that(1)] p(2), of k]
        spec_wilder_avg_zero[OF increasing_gains_losses(2)[OF that(1)], of p k] k(1) by simp_all
    then show ?thesis by (simp add: k(2) spec_rsi_policy_def)
  qed
  have falling: "v = 0" if "sorted_wrt (>) close" "Some v \<in> set ?r" for v
  proof -
    from mem[OF that(2)] obtain k where k: "p + k \<le> length ?g"
      "v = spec_rsi_policy (spec_wilder_avg ?g p k) (spec_wilder_avg ?l p k)" by blast
    have "spec_wilder_avg ?g p k = 0" "0 < spec_wilder_avg ?l p k"
      using spec_wilder_avg_zero[OF decreasing_gains_losses(1)[OF that(1)], of p k]
        spec_wilder_avg_pos[OF decreasing_gains_losses(2)[OF that(1)] p(2), of k] k(1) by simp_all
    then show ?thesis by (simp add: k(2) spec_rsi_policy_def)
  qed
  show ?thesis
    using eq ex flat rising falling by blast
qed

theorem compute_rsi_flat_rising_falling_witness:
  "(1::int) \<le> 2 \<and> (2::int) + 1 \<le> int (length [5, 5, 5, 5::real]) \<and>
   set [5, 5, 5, 5::real] = {5} \<and>
   sorted_wrt (<) [1, 2, 3, 4::real] \<and> sorted_wrt (>) [4, 3, 2, 1::real] \<and>
   compute_rsi [5, 5, 5, 5] 2 = Inr [None, None, Some 50, Some 50] \<and>
   compute_rsi [1, 2, 3, 4] 2 = Inr [None, None, Some 100, Some 100] \<and>
   compute_rsi [4, 3, 2, 1] 2 = Inr [None, None, Some 0, Some 0]"
proof -
  have ev: "compute_rsi [5, 5, 5, 5] 2 = Inr [None, None, Some 50, Some 50]"
    "compute_rsi [1, 2, 3, 4] 2 = Inr [None, None, Some 100, Some 100]"
    "compute_rsi [4, 3, 2, 1] 2 = Inr [None, None, Some 0, Some 0]"
    by (simp_all add: compute_rsi_def rsi_def gains_of_def losses_of_def Let_def item_def
        py_range_def times_def truediv_def slice_to_def slice_bound_def upto.simps py_round_def
        round_half_even_def upt_rec eval_nat_numeral)
  show ?thesis
    using compute_rsi_flat_rising_falling[of 2 "[5, 5, 5, 5]" 5]
      compute_rsi_flat_rising_falling[of 2 "[1, 2, 3, 4]" 0]
      compute_rsi_flat_rising_falling[of 2 "[4, 3, 2, 1]" 0] ev
    by simp
qed

section \<open>MACD\<close>




section \<open>The aggregator\<close>

text \<open>
  Claim C5, as amended. Whenever \<open>compute_indicators\<close> returns: the latest \<open>macd\<close>,
  \<open>macd_signal\<close>, \<open>bb_upper\<close> and \<open>bb_lower\<close> are the last value of their series, and
  \<open>None\<close> exactly when that series is empty; the latest \<open>rsi\<close>, \<open>sma_20\<close>, \<open>sma_50\<close> and
  \<open>sma_200\<close> are \<open>None\<close> when their series holds no value, and when the last value \<open>v\<close>
  of the series is not zero the field is \<open>round(v, 2)\<close>, which for \<open>rsi\<close> is \<open>v\<close> itself.
\<close>

theorem latest_fields:
  assumes "compute_indicators dates close high low volume = Inr r"
  shows "latest_macd (ind_latest r) =
           (if macd (ind_macd r) = [] then None else Some (last (macd (ind_macd r)))) \<and>
         latest_macd_signal (ind_latest r) =
           (if signal (ind_macd r) = [] then None else Some (last (signal (ind_macd r)))) \<and>
         latest_bb_upper (ind_latest r) =
           (if upper (ind_bollinger_bands r) = [] then None
            else Some (last (upper (ind_bollinger_bands r)))) \<and>
         latest_bb_lower (ind_latest r) =
           (if lower (ind_bollinger_bands r) = [] then None
            else Some (last (lower (ind_bollinger_bands r)))) \<and>
         (last_non_marker (ind_rsi r) = None \<longrightarrow> latest_rsi (ind_latest r) = None) \<and>
         (last_non_marker (ind_sma_20 r) = None \<longrightarrow> latest_sma_20 (ind_latest r) = None) \<and>
         (last_non_marker (ind_sma_50 r) = None \<longrightarrow> latest_sma_50 (ind_latest r) = None) \<and>
         (last_non_marker (ind_sma_200 r) = None \<longrightarrow> latest_sma_200 (ind_latest r) = None) \<and>
         (\<forall>v. last_non_marker (ind_rsi r) = Some v \<and> v \<noteq> 0 \<longrightarrow>
              latest_rsi (ind_latest r) = Some v) \<and>
         (\<forall>v. last_non_marker (ind_sma_20 r) = Some v \<and> v \<noteq> 0 \<longrightarrow>
              latest_sma_20 (ind_latest r) = Some (py_round v 2)) \<and>
         (\<forall>v. last_non_marker (ind_sma_50 r) = Some v \<and> v \<noteq> 0 \<longrightarrow>
              latest_sma_50 (ind_latest r) = Some (py_round v 2)) \<and>
         (\<forall>v. last_non_marker (ind_sma_200 r) = Some v \<and> v \<noteq> 0 \<longrightarrow>
              latest_sma_200 (ind_latest r) = Some (py_round v 2))"
proof -
  from compute_indicators_Inr[OF assms] obtain sma_20 sma_50 sma_200 rsi_14 macd_data bb_data
    where c: "compute_rsi close 14 = Inr rsi_14"
      and s: "ind_rsi r = rsi_14" "ind_macd r = macd_data" "ind_bollinger_bands r = bb_data"
        "ind_sma_20 r = sma_20" "ind_sma_50 r = sma_50" "ind_sma_200 r = sma_200"
      and l: "latest_rsi (ind_latest r) = round_if_truthy (last_valid rsi_14)"
        "latest_sma_20 (ind_latest r) = round_if_truthy (last_valid sma_20)"
        "latest_sma_50 (ind_latest r) = round_if_truthy (last_valid sma_50)"
        "latest_sma_200 (ind_latest r) = round_if_truthy (last_valid sma_200)"
        "latest_macd (ind_latest r) = last_or_none (macd macd_data)"
        "latest_macd_signal (ind_latest r) = last_or_none (signal macd_data)"
        "latest_bb_upper (ind_latest r) = last_or_none (upper bb_data)"
        "latest_bb_lower (ind_latest r) = last_or_none (lower bb_data)"
    by blast
  have rsi: "latest_rsi (ind_latest r) = Some v"
    if "last_non_marker (ind_rsi r) = Some v \<and> v \<noteq> 0" for v
  proof -
    have "Some v \<in> set rsi_14"
      using that s(1) last_non_marker_mem by blast
    then have "py_round v 2 = v"
      by (rule compute_rsi_rounded[OF c])
    then show ?thesis
      using that by (simp add: l(1) s(1)[symmetric] last_valid_is_last_non_marker
          round_if_truthy_nonzero)
  qed
  show ?thesis
    using rsi
    by (simp add: l s[symmetric] last_valid_is_last_non_marker last_or_none_def
        round_if_truthy_nonzero)
qed

theorem latest_fields_witness:
  "\<exists>r. compute_indicators [] (replicate 20 (129 / 128)) [] [] [] = Inr r \<and>
        last_non_marker (ind_sma_20 r) = Some (129 / 128) \<and>
        latest_sma_20 (ind_latest r) = Some (py_round (129 / 128) 2) \<and>
        last_non_marker (ind_rsi r) = Some 50 \<and> latest_rsi (ind_latest r) = Some 50 \<and>
        last_non_marker (ind_sma_50 r) = None \<and> latest_sma_50 (ind_latest r) = None \<and>
        macd (ind_macd r) = [] \<and> latest_macd (ind_latest r) = None \<and>
        upper (ind_bollinger_bands r) = [101 / 100] \<and>
        latest_bb_upper (ind_latest r) = Some (101 / 100)"
proof -
  let ?r = "\<lparr>ind_rsi = replicate 14 None @ replicate 6 (Some 50),
          ind_macd = \<lparr>macd = [], signal = [], histogram = []\<rparr>,
          ind_bollinger_bands = \<lparr>upper = [101 / 100], middle = [101 / 100], lower = [101 / 100]\<rparr>,
          ind_sma_20 = replicate 19 None @ [Some (129 / 128)],
          ind_sma_50 = replicate 49 None,
          ind_sma_200 = replicate 199 None,
          ind_latest =
            \<lparr>latest_close = 129 / 128,
             latest_rsi = Some 50,
             latest_macd = None,
             latest_macd_signal = None,
             latest_macd_histogram = None,
             latest_sma_20 = Some (101 / 100),
             latest_sma_50 = None,
             latest_sma_200 = None,
             latest_bb_upper = Some (101 / 100),
             latest_bb_lower = Some (101 / 100),
             latest_trend = ''Sideways'',
             latest_trend_30d_pct = 0\<rparr>,
          ind_signals = [Rsi_Neutral 50, Below_Lower_Band],
          ind_data_points = 20\<rparr>"
  have m: "last_non_marker (ind_sma_20 ?r) = Some (129 / 128)"
    "last_non_marker (ind_rsi ?r) = Some 50" "last_non_marker (ind_sma_50 ?r) = None"
    by (simp_all add: last_non_marker_append_Some last_non_marker_flat_rsi
        last_non_marker_replicate_None)
  show ?thesis
    using latest_fields[OF indicators_flat_20] m indicators_flat_20
    by (intro exI[of _ ?r]) simp
qed

text \<open>
  Claim C5 as stated fails in two places. For twenty closes of 1.0078125 the last value of
  the \<open>sma_20\<close> series is 1.0078125 and the latest \<open>sma_20\<close> is 1.01: the field is
  rounded, the series is not. For fifteen falling closes the last value of the \<open>rsi\<close>
  series is 0.0 and the latest \<open>rsi\<close> is \<open>None\<close>: \<open>round(v, 2) if v else None\<close> tests
  the truth value of the number.
\<close>

theorem latest_fields_counterexample:
  "map_sum id (last_non_marker \<circ> ind_sma_20)
     (compute_indicators [] (replicate 20 (129 / 128)) [] [] []) = Inr (Some (129 / 128)) \<and>
   map_sum id (latest_sma_20 \<circ> ind_latest)
     (compute_indicators [] (replicate 20 (129 / 128)) [] [] []) = Inr (Some (101 / 100)) \<and>
   map_sum id (last_non_marker \<circ> ind_rsi)
     (compute_indicators [] [15, 14, 13, 12, 11, 10, 9, 8, 7, 6, 5, 4, 3, 2, 1] [] [] [])
     = Inr (Some 0) \<and>
   map_sum id (latest_rsi \<circ> ind_latest)
     (compute_indicators [] [15, 14, 13, 12, 11, 10, 9, 8, 7, 6, 5, 4, 3, 2, 1] [] [] [])
     = Inr None"
  unfolding indicators_flat_20 indicators_falling_15
  by (simp add: last_non_marker_append_Some)

text \<open>
  Claim C9. The summary depends on \<open>close\<close> only: two calls with the same closes and any
  dates, highs, lows and volumes return the same result.
\<close>

theorem compute_indicators_reads_close_only:
  "compute_indicators dates close high low volume =
   compute_indicators dates' close high' low' volume'"
  by (simp add: compute_indicators_def)

text \<open>
  Claim C3 says that no close series makes \<open>compute_indicators\<close> raise. On the empty
  series it raises IndexError: \<open>close[0]\<close> in the trend computation is read without the
  guard that \<open>last_close\<close> has. (On every non-empty series it returns, see
  \<open>compute_indicators_returns\<close>.)
\<close>

theorem compute_indicators_empty_close_raises:
  "compute_indicators dates [] high low volume = Inl IndexError"
  by (simp add: compute_indicators_def sma_def compute_rsi_def compute_macd_def
      compute_bollinger_bands_def py_range_def times_def item_def Let_def)

end
